theory Spec2Isabelle
  imports Main
begin

section \<open>The document tree\<close>

text \<open>
  \<^verbatim>\<open>src/main.py\<close> works on the tree that the markup library builds: a
  \<^verbatim>\<open>BeautifulSoup\<close> root object whose descendants are \<^verbatim>\<open>Tag\<close> objects (a name,
  a namespace prefix, an attribute dictionary, an ordered child list) and
  \<^verbatim>\<open>NavigableString\<close> objects. The HTML parsers leave the prefix \<^verbatim>\<open>None\<close> and keep
  a colon of the markup in the name; the XML parsers (\<^verbatim>\<open>xml\<close>, \<^verbatim>\<open>lxml-xml\<close>) split
  \<^verbatim>\<open><a:b>\<close> into the name \<^verbatim>\<open>b\<close> and the prefix \<^verbatim>\<open>a\<close>.
  \<^verbatim>\<open>Comment\<close> is a subclass of \<^verbatim>\<open>NavigableString\<close>, so every test
  \<^verbatim>\<open>isinstance(c, NavigableString)\<close> of the source also holds for a comment.
  The other string classes of the library (doctype, CDATA, declarations) pass and fail
  the same tests of the source as plain text and are modelled as \<open>NavigableString\<close>.
  The attribute dictionary is an association list (insertion order, keys unique); the
  source never looks at an attribute value.
  The root is not a \<^verbatim>\<open>Tag\<close> of its own child list: \<^verbatim>\<open>soup.find_all\<close> walks the
  descendants of the root only, in document order (pre-order).
\<close>

type_synonym attrs = "(string \<times> string) list"

datatype node =
    Tag string "string option" attrs "node list"
  | NavigableString string
  | Comment string

datatype soup = BeautifulSoup "node list"

fun contents :: "soup \<Rightarrow> node list" where
  "contents (BeautifulSoup cs) = cs"

text \<open>The options of \<^verbatim>\<open>parse_args\<close> that \<^verbatim>\<open>clean_html\<close> reads between parsing and
  serialising (\<^verbatim>\<open>parser\<close> and \<^verbatim>\<open>prettify\<close> only concern those two library calls).\<close>

record args =
  remove_tag :: "string list"
  keep_attr :: "string list"
  remove_comments :: bool
  same_name_only :: bool
  minimize_nesting_opt :: bool
  remove_empty :: bool

definition default_args :: args where
  "default_args = \<lparr> remove_tag = [''style'', ''span'', ''meta'', ''script''],
                     keep_attr = [''href'', ''src'', ''alt''],
                     remove_comments = True,
                     same_name_only = True,
                     minimize_nesting_opt = True,
                     remove_empty = True \<rparr>"

section \<open>Significant children\<close>

text \<open>\<^verbatim>\<open>str.isspace\<close> on the code points below 256.\<close>

definition isspace :: "char \<Rightarrow> bool" where
  "isspace c = (of_char c \<in> set [9, 10, 11, 12, 13, 28, 29, 30, 31, 32, 133, 160 :: nat])"

text \<open>\<^verbatim>\<open>not c.strip()\<close>: nothing is left once the white space is stripped.\<close>

definition strip_empty :: "string \<Rightarrow> bool" where
  "strip_empty s = list_all isspace s"

text \<open>The negation of the \<^verbatim>\<open>continue\<close> test of \<^verbatim>\<open>_significant_children\<close>:
  \<^verbatim>\<open>isinstance(c, NavigableString) and not c.strip()\<close>.\<close>

fun significant :: "node \<Rightarrow> bool" where
  "significant (Tag n p a ks) = True"
| "significant (NavigableString s) = (\<not> strip_empty s)"
| "significant (Comment s) = (\<not> strip_empty s)"

definition significant_children :: "node list \<Rightarrow> node list" where
  "significant_children cs = filter significant cs"

fun is_Tag :: "node \<Rightarrow> bool" where
  "is_Tag (Tag n p a ks) = True"
| "is_Tag (NavigableString s) = False"
| "is_Tag (Comment s) = False"

fun tag_name :: "node \<Rightarrow> string" where
  "tag_name (Tag n p a ks) = n"
| "tag_name (NavigableString s) = []"
| "tag_name (Comment s) = []"

section \<open>Wrapper collapsing\<close>

text \<open>The body of the \<^verbatim>\<open>for\<close> loop of \<^verbatim>\<open>minimize_nesting\<close> for a tag with name
  \<open>n\<close>, attributes \<open>a\<close> and children \<open>ks\<close>: true when no \<^verbatim>\<open>continue\<close> is taken
  and \<^verbatim>\<open>tag.unwrap()\<close> is reached.\<close>

definition unwrappable :: "bool \<Rightarrow> string \<Rightarrow> attrs \<Rightarrow> node list \<Rightarrow> bool" where
  "unwrappable sno n a ks =
     (let kids = significant_children ks in
      if length kids \<noteq> 1 \<or> \<not> is_Tag (hd kids) then False
      else if a \<noteq> [] then False
      else if sno \<and> tag_name (hd kids) \<noteq> n then False
      else True)"

text \<open>One pass of the \<^verbatim>\<open>for\<close> loop over \<^verbatim>\<open>soup.find_all(True)\<close>: the first tag in
  document order that reaches \<^verbatim>\<open>tag.unwrap()\<close> is replaced, in its parent's child
  list, by all of its own children, and the scan stops (\<^verbatim>\<open>break\<close>). \<open>None\<close> when the
  scan ends with \<^verbatim>\<open>changed\<close> still false.\<close>

fun unwrap_first :: "bool \<Rightarrow> node list \<Rightarrow> node list option" where
  "unwrap_first sno [] = None"
| "unwrap_first sno (Tag n p a ks # rest) =
     (if unwrappable sno n a ks then Some (ks @ rest)
      else (case unwrap_first sno ks of
              Some ks' \<Rightarrow> Some (Tag n p a ks' # rest)
            | None \<Rightarrow> map_option (\<lambda>r. Tag n p a ks # r) (unwrap_first sno rest)))"
| "unwrap_first sno (NavigableString s # rest) =
     map_option (\<lambda>r. NavigableString s # r) (unwrap_first sno rest)"
| "unwrap_first sno (Comment s # rest) =
     map_option (\<lambda>r. Comment s # r) (unwrap_first sno rest)"

text \<open>Number of nodes below the root.\<close>

fun count_nodes :: "node list \<Rightarrow> nat" where
  "count_nodes [] = 0"
| "count_nodes (Tag n p a ks # rest) = Suc (count_nodes ks + count_nodes rest)"
| "count_nodes (NavigableString s # rest) = Suc (count_nodes rest)"
| "count_nodes (Comment s # rest) = Suc (count_nodes rest)"

lemma count_nodes_append: "count_nodes (xs @ ys) = count_nodes xs + count_nodes ys"
  by (induction xs rule: count_nodes.induct) simp_all

lemma unwrap_first_count:
  "unwrap_first sno t = Some t' \<Longrightarrow> Suc (count_nodes t') = count_nodes t"
  by (induction sno t arbitrary: t' rule: unwrap_first.induct)
     (auto simp: count_nodes_append split: if_splits option.splits)

text \<open>The \<^verbatim>\<open>while changed\<close> loop of \<^verbatim>\<open>minimize_nesting\<close>.\<close>

function minimize_nesting :: "bool \<Rightarrow> soup \<Rightarrow> soup" where
  "minimize_nesting sno (BeautifulSoup cs) =
     (case unwrap_first sno cs of
        None \<Rightarrow> BeautifulSoup cs
      | Some cs' \<Rightarrow> minimize_nesting sno (BeautifulSoup cs'))"
  by pat_completeness auto
termination
  by (relation "measure (\<lambda>(sno, s). count_nodes (contents s))")
     (auto dest: unwrap_first_count)

declare minimize_nesting.simps [simp del]

section \<open>Empty element pruning\<close>

text \<open>One pass of the \<^verbatim>\<open>for\<close> loop of \<^verbatim>\<open>remove_empty_tags\<close>: the first tag in
  document order without significant children is decomposed (it leaves its parent's
  child list together with its subtree) and the scan stops.\<close>

fun decompose_first :: "node list \<Rightarrow> node list option" where
  "decompose_first [] = None"
| "decompose_first (Tag n p a ks # rest) =
     (if significant_children ks = [] then Some rest
      else (case decompose_first ks of
              Some ks' \<Rightarrow> Some (Tag n p a ks' # rest)
            | None \<Rightarrow> map_option (\<lambda>r. Tag n p a ks # r) (decompose_first rest)))"
| "decompose_first (NavigableString s # rest) =
     map_option (\<lambda>r. NavigableString s # r) (decompose_first rest)"
| "decompose_first (Comment s # rest) =
     map_option (\<lambda>r. Comment s # r) (decompose_first rest)"

lemma decompose_first_count:
  "decompose_first t = Some t' \<Longrightarrow> count_nodes t' < count_nodes t"
  by (induction t arbitrary: t' rule: decompose_first.induct)
     (auto split: if_splits option.splits)

function remove_empty_tags :: "soup \<Rightarrow> soup" where
  "remove_empty_tags (BeautifulSoup cs) =
     (case decompose_first cs of
        None \<Rightarrow> BeautifulSoup cs
      | Some cs' \<Rightarrow> remove_empty_tags (BeautifulSoup cs'))"
  by pat_completeness auto
termination
  by (relation "measure (\<lambda>s. count_nodes (contents s))")
     (auto dest: decompose_first_count)

declare remove_empty_tags.simps [simp del]

section \<open>The pipeline\<close>

text \<open>The test of \<^verbatim>\<open>soup.find_all(name)\<close> for a string \<open>name\<close>, on a tag with name \<open>n\<close>
  and prefix \<open>p\<close>. In the library:
  \<^verbatim>\<open>if name.count(':') == 1: prefix, local_name = name.split(':', 1)\<close>,
  \<^verbatim>\<open>else: prefix = None; local_name = name\<close>, and a tag is found when
  \<^verbatim>\<open>element.name == name or (element.name == local_name and (prefix is None or element.prefix == prefix))\<close>.
  So \<^verbatim>\<open>a:b\<close> finds the tags named \<^verbatim>\<open>a:b\<close> and the tags named \<^verbatim>\<open>b\<close> with prefix
  \<^verbatim>\<open>a\<close>.\<close>

definition split_name :: "string \<Rightarrow> string option \<times> string" where
  "split_name nm =
     (if length (filter (\<lambda>c. c = CHR '':'') nm) = 1
      then (Some (takeWhile (\<lambda>c. c \<noteq> CHR '':'') nm), tl (dropWhile (\<lambda>c. c \<noteq> CHR '':'') nm))
      else (None, nm))"

definition find_all_match :: "string \<Rightarrow> string \<Rightarrow> string option \<Rightarrow> bool" where
  "find_all_match nm n p =
     (n = nm \<or> (n = snd (split_name nm) \<and> (fst (split_name nm) = None \<or> p = fst (split_name nm))))"

text \<open>\<^verbatim>\<open>for t in soup.find_all(name): t.decompose()\<close>: every tag that is found
  leaves the tree with its subtree.\<close>

fun decompose_all :: "string \<Rightarrow> node list \<Rightarrow> node list" where
  "decompose_all nm [] = []"
| "decompose_all nm (Tag n p a ks # rest) =
     (if find_all_match nm n p then decompose_all nm rest
      else Tag n p a (decompose_all nm ks) # decompose_all nm rest)"
| "decompose_all nm (NavigableString s # rest) = NavigableString s # decompose_all nm rest"
| "decompose_all nm (Comment s # rest) = Comment s # decompose_all nm rest"

text \<open>\<^verbatim>\<open>for c in soup.find_all(string=lambda t: isinstance(t, Comment)): c.extract()\<close>.\<close>

fun extract_comments :: "node list \<Rightarrow> node list" where
  "extract_comments [] = []"
| "extract_comments (Tag n p a ks # rest) = Tag n p a (extract_comments ks) # extract_comments rest"
| "extract_comments (NavigableString s # rest) = NavigableString s # extract_comments rest"
| "extract_comments (Comment s # rest) = extract_comments rest"

text \<open>\<^verbatim>\<open>tag.attrs = {k: v for k, v in tag.attrs.items() if k in keep}\<close> for every tag.\<close>

fun strip_attrs :: "string list \<Rightarrow> node list \<Rightarrow> node list" where
  "strip_attrs keep [] = []"
| "strip_attrs keep (Tag n p a ks # rest) =
     Tag n p (filter (\<lambda>(k, v). k \<in> set keep) a) (strip_attrs keep ks) # strip_attrs keep rest"
| "strip_attrs keep (NavigableString s # rest) = NavigableString s # strip_attrs keep rest"
| "strip_attrs keep (Comment s # rest) = Comment s # strip_attrs keep rest"

text \<open>\<^verbatim>\<open>clean_html\<close> between the parser and the serialiser: from the parsed tree to
  the tree that is printed.\<close>

definition clean_html :: "args \<Rightarrow> soup \<Rightarrow> soup" where
  "clean_html ar sp =
     (let s1 = BeautifulSoup (fold decompose_all (remove_tag ar) (contents sp));
          s2 = (if remove_comments ar then BeautifulSoup (extract_comments (contents s1)) else s1);
          s3 = BeautifulSoup (strip_attrs (keep_attr ar) (contents s2));
          s4 = (if minimize_nesting_opt ar then minimize_nesting (same_name_only ar) s3 else s3);
          s5 = (if remove_empty ar then remove_empty_tags s4 else s4)
      in s5)"

section \<open>Auxiliary notions for the statements\<close>

text \<open>The number of times each loop reaches its mutation (\<^verbatim>\<open>tag.unwrap()\<close>,
  \<^verbatim>\<open>tag.decompose()\<close>) and sets \<^verbatim>\<open>changed = True\<close>: the recursion of the loop
  itself, counting instead of returning the tree.\<close>

function unwrap_calls :: "bool \<Rightarrow> soup \<Rightarrow> nat" where
  "unwrap_calls sno (BeautifulSoup cs) =
     (case unwrap_first sno cs of
        None \<Rightarrow> 0
      | Some cs' \<Rightarrow> Suc (unwrap_calls sno (BeautifulSoup cs')))"
  by pat_completeness auto
termination
  by (relation "measure (\<lambda>(sno, s). count_nodes (contents s))")
     (auto dest: unwrap_first_count)

declare unwrap_calls.simps [simp del]

function decompose_calls :: "soup \<Rightarrow> nat" where
  "decompose_calls (BeautifulSoup cs) =
     (case decompose_first cs of
        None \<Rightarrow> 0
      | Some cs' \<Rightarrow> Suc (decompose_calls (BeautifulSoup cs')))"
  by pat_completeness auto
termination
  by (relation "measure (\<lambda>s. count_nodes (contents s))")
     (auto dest: decompose_first_count)

declare decompose_calls.simps [simp del]

text \<open>A position in a child list at any depth: the siblings to the left and to the
  right of the hole, and the tags on the way down to it.\<close>

datatype ctx =
    Hole "node list" "node list"
  | Inside "node list" string "string option" attrs ctx "node list"

fun plug :: "ctx \<Rightarrow> node list \<Rightarrow> node list" where
  "plug (Hole l r) xs = l @ xs @ r"
| "plug (Inside l n p a c r) xs = l @ Tag n p a (plug c xs) # r"

fun ctx_cons :: "node \<Rightarrow> ctx \<Rightarrow> ctx" where
  "ctx_cons x (Hole l r) = Hole (x # l) r"
| "ctx_cons x (Inside l n p a c r) = Inside (x # l) n p a c r"

text \<open>Unwrapping any one tag that passes the tests of the loop body, wherever it
  stands: the choice that the specification leaves open, of which the scan of
  \<^verbatim>\<open>minimize_nesting\<close> (\<open>unwrap_first\<close>) takes the first in document order.\<close>

inductive unwrap_step :: "bool \<Rightarrow> node list \<Rightarrow> node list \<Rightarrow> bool" for sno where
  here: "unwrappable sno n a ks \<Longrightarrow> unwrap_step sno (Tag n p a ks # rest) (ks @ rest)"
| inside: "unwrap_step sno ks ks' \<Longrightarrow> unwrap_step sno (Tag n p a ks # rest) (Tag n p a ks' # rest)"
| later: "unwrap_step sno rest rest' \<Longrightarrow> unwrap_step sno (x # rest) (x # rest')"

text \<open>All unwrappable tags unwrapped in one bottom-up traversal.\<close>

fun collapse_all :: "bool \<Rightarrow> node list \<Rightarrow> node list" where
  "collapse_all sno [] = []"
| "collapse_all sno (Tag n p a ks # rest) =
     (if unwrappable sno n a ks then collapse_all sno ks else [Tag n p a (collapse_all sno ks)])
       @ collapse_all sno rest"
| "collapse_all sno (NavigableString s # rest) = NavigableString s # collapse_all sno rest"
| "collapse_all sno (Comment s # rest) = Comment s # collapse_all sno rest"

text \<open>What the tests of the loop body see of a child list: for each significant child,
  whether it is a tag and, when names are compared, its name.\<close>

definition sig_shape :: "bool \<Rightarrow> node list \<Rightarrow> string option list" where
  "sig_shape sno ks =
     map (\<lambda>c. if is_Tag c then Some (if sno then tag_name c else []) else None)
         (significant_children ks)"

text \<open>Predicates on every tag of a tree, at any depth.\<close>

fun every_tag :: "(string \<Rightarrow> string option \<Rightarrow> attrs \<Rightarrow> bool) \<Rightarrow> node list \<Rightarrow> bool" where
  "every_tag P [] = True"
| "every_tag P (Tag n p a ks # rest) = (P n p a \<and> every_tag P ks \<and> every_tag P rest)"
| "every_tag P (NavigableString s # rest) = every_tag P rest"
| "every_tag P (Comment s # rest) = every_tag P rest"

fun comment_free :: "node list \<Rightarrow> bool" where
  "comment_free [] = True"
| "comment_free (Tag n p a ks # rest) = (comment_free ks \<and> comment_free rest)"
| "comment_free (NavigableString s # rest) = comment_free rest"
| "comment_free (Comment s # rest) = False"

fun no_empty_tag :: "node list \<Rightarrow> bool" where
  "no_empty_tag [] = True"
| "no_empty_tag (Tag n p a ks # rest) =
     (significant_children ks \<noteq> [] \<and> no_empty_tag ks \<and> no_empty_tag rest)"
| "no_empty_tag (NavigableString s # rest) = no_empty_tag rest"
| "no_empty_tag (Comment s # rest) = no_empty_tag rest"

text \<open>The tree that the parser builds from
  \<^verbatim>\<open><div class="x"><div>Hi</div></div>\<close>.\<close>

definition scenario_D :: soup where
  "scenario_D =
     BeautifulSoup [Tag ''div'' None [(''class'', ''x'')] [Tag ''div'' None [] [NavigableString ''Hi'']]]"

section \<open>Unwrapping: what one step does\<close>

lemma plug_ctx_cons: "plug (ctx_cons x c) xs = x # plug c xs"
  by (cases c) simp_all

lemma unwrappable_split:
  assumes "unwrappable sno n a ks"
  shows "a = [] \<and> (\<exists>pre m q b cs post. ks = pre @ Tag m q b cs # post
            \<and> significant_children pre = [] \<and> significant_children post = []
            \<and> (sno \<longrightarrow> m = n))"
proof -
  let ?kids = "significant_children ks"
  from assms have len: "length ?kids = 1" and tg: "is_Tag (hd ?kids)" and a: "a = []"
    and nm: "sno \<longrightarrow> tag_name (hd ?kids) = n"
    by (auto simp: unwrappable_def Let_def split: if_splits)
  from len obtain c where c: "?kids = [c]" by (cases ?kids) auto
  with tg obtain m q b cs where cm: "c = Tag m q b cs" by (cases c) auto
  from c have "filter significant ks = c # []" by (simp add: significant_children_def)
  then obtain pre post where ks: "ks = pre @ c # post"
    and p1: "\<forall>u\<in>set pre. \<not> significant u" and p2: "[] = filter significant post"
    unfolding filter_eq_Cons_iff by blast
  from p1 have s1: "significant_children pre = []"
    by (simp add: significant_children_def filter_empty_conv)
  from p2 have s2: "significant_children post = []"
    by (simp add: significant_children_def)
  from nm c cm have "sno \<longrightarrow> m = n" by simp
  with a ks cm s1 s2 show ?thesis by blast
qed

text \<open>
  Claim C2, as the code has it. \<^verbatim>\<open>tag.unwrap()\<close> replaces the tag by its whole child
  list: whenever the scan of \<^verbatim>\<open>minimize_nesting\<close> unwraps a tag \<open>E\<close>, then \<open>E\<close> has
  no attributes, its children are \<open>pre @ C # post\<close> with \<open>C\<close> a tag and \<open>pre\<close>,
  \<open>post\<close> insignificant, and \<open>E\<close> is replaced at its position in its parent's child
  list by \<open>pre @ C # post\<close>: the insignificant children of \<open>E\<close> are spliced in around
  \<open>C\<close>, not discarded. \<open>C\<close> keeps its name, attributes and children, and nothing
  else in the tree changes.
\<close>

theorem unwrap_splices_all_children:
  "unwrap_first sno t = Some t' \<Longrightarrow>
     \<exists>c n p pre m q b cs post.
        t = plug c [Tag n p [] (pre @ Tag m q b cs # post)]
      \<and> t' = plug c (pre @ Tag m q b cs # post)
      \<and> significant_children pre = [] \<and> significant_children post = []
      \<and> (sno \<longrightarrow> m = n)"
proof (induction sno t arbitrary: t' rule: unwrap_first.induct)
  case (1 sno)
  then show ?case by simp
next
  case (2 sno n p a ks rest)
  show ?case
  proof (cases "unwrappable sno n a ks")
    case True
    with "2.prems" have t': "t' = ks @ rest" by simp
    from unwrappable_split [OF True] obtain pre m q b cs post where
      "a = []" "ks = pre @ Tag m q b cs # post" "significant_children pre = []"
      "significant_children post = []" "sno \<longrightarrow> m = n" by blast
    with t' have "Tag n p a ks # rest = plug (Hole [] rest) [Tag n p [] (pre @ Tag m q b cs # post)]
        \<and> t' = plug (Hole [] rest) (pre @ Tag m q b cs # post)
        \<and> significant_children pre = [] \<and> significant_children post = [] \<and> (sno \<longrightarrow> m = n)"
      by simp
    then show ?thesis by blast
  next
    case False
    show ?thesis
    proof (cases "unwrap_first sno ks")
      case (Some ks')
      with False "2.prems" have t': "t' = Tag n p a ks' # rest" by simp
      from "2.IH"(1) [OF False Some] obtain c n0 p0 pre m q b cs post where
        "ks = plug c [Tag n0 p0 [] (pre @ Tag m q b cs # post)]"
        "ks' = plug c (pre @ Tag m q b cs # post)"
        "significant_children pre = []" "significant_children post = []" "sno \<longrightarrow> m = n0"
        by blast
      with t' have
        "Tag n p a ks # rest = plug (Inside [] n p a c rest) [Tag n0 p0 [] (pre @ Tag m q b cs # post)]
        \<and> t' = plug (Inside [] n p a c rest) (pre @ Tag m q b cs # post)
        \<and> significant_children pre = [] \<and> significant_children post = [] \<and> (sno \<longrightarrow> m = n0)"
        by simp
      then show ?thesis by blast
    next
      case None
      with False "2.prems" obtain r where r: "unwrap_first sno rest = Some r"
        and t': "t' = Tag n p a ks # r"
        by auto
      from "2.IH"(2) [OF False None r] obtain c n0 p0 pre m q b cs post where
        "rest = plug c [Tag n0 p0 [] (pre @ Tag m q b cs # post)]"
        "r = plug c (pre @ Tag m q b cs # post)"
        "significant_children pre = []" "significant_children post = []" "sno \<longrightarrow> m = n0"
        by blast
      with t' have
        "Tag n p a ks # rest = plug (ctx_cons (Tag n p a ks) c) [Tag n0 p0 [] (pre @ Tag m q b cs # post)]
        \<and> t' = plug (ctx_cons (Tag n p a ks) c) (pre @ Tag m q b cs # post)
        \<and> significant_children pre = [] \<and> significant_children post = [] \<and> (sno \<longrightarrow> m = n0)"
        by (simp add: plug_ctx_cons)
      then show ?thesis by blast
    qed
  qed
next
  case (3 sno s rest)
  then obtain r where r: "unwrap_first sno rest = Some r" and t': "t' = NavigableString s # r"
    by auto
  from "3.IH" [OF r] obtain c n0 p0 pre m q b cs post where
    "rest = plug c [Tag n0 p0 [] (pre @ Tag m q b cs # post)]"
    "r = plug c (pre @ Tag m q b cs # post)"
    "significant_children pre = []" "significant_children post = []" "sno \<longrightarrow> m = n0"
    by blast
  with t' have
    "NavigableString s # rest =
       plug (ctx_cons (NavigableString s) c) [Tag n0 p0 [] (pre @ Tag m q b cs # post)]
    \<and> t' = plug (ctx_cons (NavigableString s) c) (pre @ Tag m q b cs # post)
    \<and> significant_children pre = [] \<and> significant_children post = [] \<and> (sno \<longrightarrow> m = n0)"
    by (simp add: plug_ctx_cons)
  then show ?case by blast
next
  case (4 sno s rest)
  then obtain r where r: "unwrap_first sno rest = Some r" and t': "t' = Comment s # r"
    by auto
  from "4.IH" [OF r] obtain c n0 p0 pre m q b cs post where
    "rest = plug c [Tag n0 p0 [] (pre @ Tag m q b cs # post)]"
    "r = plug c (pre @ Tag m q b cs # post)"
    "significant_children pre = []" "significant_children post = []" "sno \<longrightarrow> m = n0"
    by blast
  with t' have
    "Comment s # rest = plug (ctx_cons (Comment s) c) [Tag n0 p0 [] (pre @ Tag m q b cs # post)]
    \<and> t' = plug (ctx_cons (Comment s) c) (pre @ Tag m q b cs # post)
    \<and> significant_children pre = [] \<and> significant_children post = [] \<and> (sno \<longrightarrow> m = n0)"
    by (simp add: plug_ctx_cons)
  then show ?case by blast
qed

text \<open>The theorem at \<^verbatim>\<open><p><div> <div href="u">a</div> </div></p>\<close>: the two blank
  strings of the unwrapped \<^verbatim>\<open>div\<close> become children of \<^verbatim>\<open>p\<close>.\<close>

theorem unwrap_splices_all_children_witness:
  "unwrap_first True
     [Tag ''p'' None [] [Tag ''div'' None []
        [NavigableString '' '', Tag ''div'' None [(''href'', ''u'')] [NavigableString ''a''],
         NavigableString '' '']]]
   = Some [Tag ''p'' None []
        [NavigableString '' '', Tag ''div'' None [(''href'', ''u'')] [NavigableString ''a''],
         NavigableString '' '']]
   \<and> (\<exists>c n p pre m q b cs post.
        [Tag ''p'' None [] [Tag ''div'' None []
          [NavigableString '' '', Tag ''div'' None [(''href'', ''u'')] [NavigableString ''a''],
           NavigableString '' '']]]
          = plug c [Tag n p [] (pre @ Tag m q b cs # post)]
      \<and> [Tag ''p'' None []
          [NavigableString '' '', Tag ''div'' None [(''href'', ''u'')] [NavigableString ''a''],
           NavigableString '' '']]
          = plug c (pre @ Tag m q b cs # post)
      \<and> significant_children pre = [] \<and> significant_children post = [] \<and> m = n)"
proof -
  have h: "unwrap_first True
     [Tag ''p'' None [] [Tag ''div'' None []
        [NavigableString '' '', Tag ''div'' None [(''href'', ''u'')] [NavigableString ''a''],
         NavigableString '' '']]]
   = Some [Tag ''p'' None []
        [NavigableString '' '', Tag ''div'' None [(''href'', ''u'')] [NavigableString ''a''],
         NavigableString '' '']]"
    by (simp add: unwrappable_def significant_children_def strip_empty_def isspace_def)
  from unwrap_splices_all_children [OF h] h show ?thesis by simp
qed

text \<open>Claim C2 as stated fails: the wrapper in \<^verbatim>\<open><div> <div>a</div> </div>\<close> is
  unwrapped, and its two blank strings stay in the parent's child list.\<close>

theorem unwrap_keeps_whitespace_counterexample:
  "unwrappable True ''div'' []
     [NavigableString '' '', Tag ''div'' None [] [NavigableString ''a''], NavigableString '' '']
   \<and> minimize_nesting True (BeautifulSoup [Tag ''div'' None []
       [NavigableString '' '', Tag ''div'' None [] [NavigableString ''a''], NavigableString '' '']])
     = BeautifulSoup
       [NavigableString '' '', Tag ''div'' None [] [NavigableString ''a''], NavigableString '' '']
   \<and> minimize_nesting True (BeautifulSoup [Tag ''div'' None []
       [NavigableString '' '', Tag ''div'' None [] [NavigableString ''a''], NavigableString '' '']])
     \<noteq> BeautifulSoup [Tag ''div'' None [] [NavigableString ''a'']]"
  by (simp add: minimize_nesting.simps unwrappable_def significant_children_def
        strip_empty_def isspace_def)

section \<open>Scenario D\<close>

text \<open>Claim C1 as stated fails: under the default configuration the output tree is not
  \<^verbatim>\<open><div><div>Hi</div></div>\<close>.\<close>

theorem scenario_D_counterexample:
  "clean_html default_args scenario_D
     \<noteq> BeautifulSoup [Tag ''div'' None [] [Tag ''div'' None [] [NavigableString ''Hi'']]]"
  by (simp add: clean_html_def default_args_def find_all_match_def split_name_def scenario_D_def minimize_nesting.simps
        remove_empty_tags.simps unwrappable_def significant_children_def strip_empty_def
        isspace_def)

text \<open>
  Claim C1, as the code has it. The attributes are filtered before the wrappers are
  collapsed. Under the default configuration \<^verbatim>\<open>class\<close> is dropped first, the outer
  \<^verbatim>\<open>div\<close> then has no attribute left and is unwrapped: the output tree is
  \<^verbatim>\<open><div>Hi</div>\<close>. A tag that still has an attribute when the wrappers are
  collapsed is never unwrapped: with \<^verbatim>\<open>class\<close> among the kept attributes the output
  tree is the input tree.
\<close>

theorem scenario_D_filtered_then_unwrapped:
  "clean_html default_args scenario_D = BeautifulSoup [Tag ''div'' None [] [NavigableString ''Hi'']]
   \<and> clean_html (default_args \<lparr> keep_attr := ''class'' # keep_attr default_args \<rparr>) scenario_D
       = scenario_D
   \<and> \<not> unwrappable sno n (kv # a) ks"
  by (simp add: clean_html_def default_args_def find_all_match_def split_name_def scenario_D_def minimize_nesting.simps
        remove_empty_tags.simps unwrappable_def significant_children_def strip_empty_def
        isspace_def Let_def)

text \<open>The theorem at the outer \<^verbatim>\<open>div\<close> of the scenario, with its \<^verbatim>\<open>class\<close> kept.\<close>

theorem scenario_D_filtered_then_unwrapped_witness:
  "clean_html default_args scenario_D = BeautifulSoup [Tag ''div'' None [] [NavigableString ''Hi'']]
   \<and> clean_html (default_args \<lparr> keep_attr := ''class'' # keep_attr default_args \<rparr>) scenario_D
       = scenario_D
   \<and> \<not> unwrappable True ''div'' [(''class'', ''x'')] [Tag ''div'' None [] [NavigableString ''Hi'']]"
  using scenario_D_filtered_then_unwrapped
    [of True "''div''" "(''class'', ''x'')" "[]" "[Tag ''div'' None [] [NavigableString ''Hi'']]"]
  by simp

section \<open>Comments and significance\<close>

text \<open>Claim C9 as stated fails: a comment whose payload is blank is not significant, and
  a tag whose only child is such a comment is deleted by \<^verbatim>\<open>remove_empty_tags\<close>.\<close>

theorem blank_comment_counterexample:
  "\<not> significant (Comment '' '')
   \<and> remove_empty_tags (BeautifulSoup [Tag ''div'' None [] [Comment '' '']]) = BeautifulSoup []"
  by (simp add: remove_empty_tags.simps significant_children_def strip_empty_def isspace_def)

text \<open>
  Claim C9, as the code has it. The test of \<^verbatim>\<open>_significant_children\<close> is on
  \<^verbatim>\<open>NavigableString\<close>, of which \<^verbatim>\<open>Comment\<close> is a subclass: a comment is significant
  exactly when its payload has a character that is not white space, like a text node.
  A tag whose only child is a comment with such a payload is not deleted by
  \<^verbatim>\<open>remove_empty_tags\<close>, and a tag with such a comment among its children is never
  unwrapped; a tag whose only child is a comment with an empty or blank payload is
  deleted, and is not unwrapped either.
\<close>

theorem comment_significance:
  "(significant (Comment s) \<longleftrightarrow> (\<exists>c \<in> set s. \<not> isspace c))
   \<and> ((\<exists>c \<in> set s. \<not> isspace c) \<longrightarrow>
        remove_empty_tags (BeautifulSoup [Tag n p a [Comment s]]) = BeautifulSoup [Tag n p a [Comment s]]
        \<and> (Comment s \<in> set ks \<longrightarrow> \<not> unwrappable sno n a ks))
   \<and> (list_all isspace s \<longrightarrow>
        remove_empty_tags (BeautifulSoup [Tag n p a [Comment s]]) = BeautifulSoup [])
   \<and> \<not> unwrappable sno n a [Comment s]"
proof -
  have sig: "significant (Comment s) \<longleftrightarrow> (\<exists>c \<in> set s. \<not> isspace c)"
    by (simp add: strip_empty_def list_all_iff)
  have keep: "remove_empty_tags (BeautifulSoup [Tag n p a [Comment s]])
                = BeautifulSoup [Tag n p a [Comment s]]"
    if "\<exists>c \<in> set s. \<not> isspace c"
    using that sig by (simp add: remove_empty_tags.simps significant_children_def)
  have block: "\<not> unwrappable sno n a ks"
    if ne: "\<exists>c \<in> set s. \<not> isspace c" and mem: "Comment s \<in> set ks"
  proof
    assume u: "unwrappable sno n a ks"
    let ?kids = "significant_children ks"
    from u have len: "length ?kids = 1" and tg: "is_Tag (hd ?kids)"
      by (auto simp: unwrappable_def Let_def split: if_splits)
    from ne mem sig have "Comment s \<in> set ?kids" by (simp add: significant_children_def)
    moreover from len obtain c where "?kids = [c]" by (cases ?kids) auto
    ultimately have "hd ?kids = Comment s" by simp
    with tg show False by simp
  qed
  have drop: "remove_empty_tags (BeautifulSoup [Tag n p a [Comment s]]) = BeautifulSoup []"
    if "list_all isspace s"
    using that by (simp add: remove_empty_tags.simps significant_children_def strip_empty_def)
  have alone: "\<not> unwrappable sno n a [Comment s]"
    by (simp add: unwrappable_def significant_children_def Let_def)
  from sig keep block drop alone show ?thesis by blast
qed

text \<open>The theorem at the comments \<^verbatim>\<open><!--x-->\<close> and \<^verbatim>\<open><!-- -->\<close>.\<close>

theorem comment_significance_witness:
  "significant (Comment ''x'')
   \<and> remove_empty_tags (BeautifulSoup [Tag ''div'' None [] [Comment ''x'']])
       = BeautifulSoup [Tag ''div'' None [] [Comment ''x'']]
   \<and> \<not> unwrappable False ''div'' [] [Comment ''x'', Tag ''p'' None [] []]
   \<and> remove_empty_tags (BeautifulSoup [Tag ''div'' None [] [Comment '' '']]) = BeautifulSoup []"
proof -
  have x: "\<exists>c \<in> set ''x''. \<not> isspace c" by (simp add: isspace_def)
  have b: "list_all isspace '' ''" by (simp add: isspace_def)
  have m: "Comment ''x'' \<in> set [Comment ''x'', Tag ''p'' None [] []]" by simp
  from comment_significance [of "''x''" "''div''" None "[]" "[Comment ''x'', Tag ''p'' None [] []]" False] x m
  have 1: "significant (Comment ''x'')
   \<and> remove_empty_tags (BeautifulSoup [Tag ''div'' None [] [Comment ''x'']])
       = BeautifulSoup [Tag ''div'' None [] [Comment ''x'']]
   \<and> \<not> unwrappable False ''div'' [] [Comment ''x'', Tag ''p'' None [] []]"
    by blast
  from comment_significance [of "'' ''" "''div''" None "[]" "[]" False] b
  have 2: "remove_empty_tags (BeautifulSoup [Tag ''div'' None [] [Comment '' '']]) = BeautifulSoup []"
    by blast
  from 1 2 show ?thesis by blast
qed

section \<open>Order of unwrapping\<close>

lemma sig_shape_append: "sig_shape sno (xs @ ys) = sig_shape sno xs @ sig_shape sno ys"
  by (simp add: sig_shape_def significant_children_def)

lemma sig_shape_Nil: "sig_shape sno [] = []"
  by (simp add: sig_shape_def significant_children_def)

lemma sig_shape_Tag:
  "sig_shape sno (Tag n p a ks # rest) = Some (if sno then n else []) # sig_shape sno rest"
  by (simp add: sig_shape_def significant_children_def)

lemma sig_shape_String:
  "sig_shape sno (NavigableString s # rest)
     = (if strip_empty s then [] else [None]) @ sig_shape sno rest"
  by (simp add: sig_shape_def significant_children_def)

lemma sig_shape_Comment:
  "sig_shape sno (Comment s # rest)
     = (if strip_empty s then [] else [None]) @ sig_shape sno rest"
  by (simp add: sig_shape_def significant_children_def)

text \<open>The tests of the loop body depend on the children through their shape only.\<close>

lemma unwrappable_shape:
  "unwrappable sno n a ks \<longleftrightarrow> a = [] \<and> sig_shape sno ks = [Some (if sno then n else [])]"
proof (cases "significant_children ks")
  case Nil
  then show ?thesis by (simp add: unwrappable_def sig_shape_def)
next
  case (Cons c cs)
  then show ?thesis
    by (cases c; cases cs) (auto simp: unwrappable_def sig_shape_def Let_def)
qed

text \<open>An unwrapped tag leaves in its place one significant child, a tag, of the name
  that is compared: no other tag of the tree passes or fails the tests because of it.\<close>

lemma sig_shape_collapse: "sig_shape sno (collapse_all sno ks) = sig_shape sno ks"
proof (induction sno ks rule: collapse_all.induct)
  case (2 sno n p a ks rest)
  show ?case
  proof (cases "unwrappable sno n a ks")
    case True
    with 2 show ?thesis
      by (simp add: sig_shape_append sig_shape_Tag unwrappable_shape)
  next
    case False
    with 2 show ?thesis
      by (simp add: sig_shape_Tag)
  qed
qed (simp_all add: sig_shape_Nil sig_shape_String sig_shape_Comment)

lemma unwrap_step_shape: "unwrap_step sno t t' \<Longrightarrow> sig_shape sno t' = sig_shape sno t"
proof (induction rule: unwrap_step.induct)
  case (here n a ks p rest)
  then show ?case by (simp add: sig_shape_append sig_shape_Tag unwrappable_shape)
next
  case (inside ks ks' n p a rest)
  then show ?case by (simp add: sig_shape_Tag)
next
  case (later rest rest' x)
  then show ?case by (cases x) (simp_all add: sig_shape_Tag sig_shape_String sig_shape_Comment)
qed

lemma collapse_all_append:
  "collapse_all sno (xs @ ys) = collapse_all sno xs @ collapse_all sno ys"
  by (induction sno xs rule: collapse_all.induct) simp_all

lemma unwrap_step_collapse: "unwrap_step sno t t' \<Longrightarrow> collapse_all sno t' = collapse_all sno t"
proof (induction rule: unwrap_step.induct)
  case (here n a ks p rest)
  then show ?case by (simp add: collapse_all_append)
next
  case (inside ks ks' n p a rest)
  from inside.hyps have "unwrappable sno n a ks' = unwrappable sno n a ks"
    by (simp add: unwrappable_shape unwrap_step_shape)
  with inside.IH show ?case by simp
next
  case (later rest rest' x)
  then show ?case by (cases x) simp_all
qed

lemma unwrap_steps_collapse:
  "rtranclp (unwrap_step sno) t t' \<Longrightarrow> collapse_all sno t' = collapse_all sno t"
  by (induction rule: rtranclp_induct) (simp_all add: unwrap_step_collapse)

lemma unwrap_first_None_collapse: "unwrap_first sno t = None \<Longrightarrow> collapse_all sno t = t"
  by (induction sno t rule: unwrap_first.induct) (auto split: if_splits option.splits)

lemma unwrap_first_step: "unwrap_first sno t = Some t' \<Longrightarrow> unwrap_step sno t t'"
  by (induction sno t arbitrary: t' rule: unwrap_first.induct)
     (auto split: if_splits option.splits intro: unwrap_step.intros)

lemma unwrap_step_first: "unwrap_step sno t t' \<Longrightarrow> unwrap_first sno t \<noteq> None"
proof (induction rule: unwrap_step.induct)
  case (later rest rest' x)
  then show ?case by (cases x) (auto split: option.splits)
qed (auto split: option.splits)

lemma minimize_nesting_collapse:
  "minimize_nesting sno sp = BeautifulSoup (collapse_all sno (contents sp))"
proof (induction sno sp rule: minimize_nesting.induct)
  case (1 sno cs)
  show ?case
  proof (cases "unwrap_first sno cs")
    case None
    then show ?thesis by (simp add: minimize_nesting.simps unwrap_first_None_collapse)
  next
    case (Some cs')
    with 1 have "minimize_nesting sno (BeautifulSoup cs) = BeautifulSoup (collapse_all sno cs')"
      by (simp add: minimize_nesting.simps)
    with Some show ?thesis by (simp add: unwrap_first_step unwrap_step_collapse)
  qed
qed

text \<open>
  Claim C3. Let the tags to unwrap be chosen in any order, one at a time, each passing
  the tests of the loop body at the moment it is chosen, until no tag of the tree passes
  them. Two such runs from the same tree end in the same tree, and it is the tree that
  \<^verbatim>\<open>minimize_nesting\<close> returns with its scan in document order.
\<close>

theorem collapse_fixed_point_unique:
  assumes "rtranclp (unwrap_step sno) cs t1" and "\<forall>u. \<not> unwrap_step sno t1 u"
      and "rtranclp (unwrap_step sno) cs t2" and "\<forall>u. \<not> unwrap_step sno t2 u"
  shows "t1 = t2 \<and> minimize_nesting sno (BeautifulSoup cs) = BeautifulSoup t1"
proof -
  have n1: "unwrap_first sno t1 = None" and n2: "unwrap_first sno t2 = None"
    using assms(2,4) unwrap_first_step by (metis option.exhaust)+
  from assms(1) have "collapse_all sno t1 = collapse_all sno cs" by (rule unwrap_steps_collapse)
  with n1 have e1: "t1 = collapse_all sno cs" by (simp add: unwrap_first_None_collapse)
  from assms(3) have "collapse_all sno t2 = collapse_all sno cs" by (rule unwrap_steps_collapse)
  with n2 have e2: "t2 = collapse_all sno cs" by (simp add: unwrap_first_None_collapse)
  from e1 e2 show ?thesis by (simp add: minimize_nesting_collapse)
qed

text \<open>The theorem at \<^verbatim>\<open><div> <div><div href="u">a</div></div></div>\<close>: the outer tag
  first or the middle tag first, through different trees, to the same end.\<close>

theorem collapse_fixed_point_unique_witness:
  "unwrap_step True
     [Tag ''div'' None [] [NavigableString '' '',
        Tag ''div'' None [] [Tag ''div'' None [(''href'', ''u'')] [NavigableString ''a'']]]]
     [NavigableString '' '',
        Tag ''div'' None [] [Tag ''div'' None [(''href'', ''u'')] [NavigableString ''a'']]]
   \<and> unwrap_step True
     [NavigableString '' '',
        Tag ''div'' None [] [Tag ''div'' None [(''href'', ''u'')] [NavigableString ''a'']]]
     [NavigableString '' '', Tag ''div'' None [(''href'', ''u'')] [NavigableString ''a'']]
   \<and> unwrap_step True
     [Tag ''div'' None [] [NavigableString '' '',
        Tag ''div'' None [] [Tag ''div'' None [(''href'', ''u'')] [NavigableString ''a'']]]]
     [Tag ''div'' None [] [NavigableString '' '',
        Tag ''div'' None [(''href'', ''u'')] [NavigableString ''a'']]]
   \<and> unwrap_step True
     [Tag ''div'' None [] [NavigableString '' '',
        Tag ''div'' None [(''href'', ''u'')] [NavigableString ''a'']]]
     [NavigableString '' '', Tag ''div'' None [(''href'', ''u'')] [NavigableString ''a'']]
   \<and> (\<forall>u. \<not> unwrap_step True
        [NavigableString '' '', Tag ''div'' None [(''href'', ''u'')] [NavigableString ''a'']] u)
   \<and> minimize_nesting True (BeautifulSoup
       [Tag ''div'' None [] [NavigableString '' '',
          Tag ''div'' None [] [Tag ''div'' None [(''href'', ''u'')] [NavigableString ''a'']]]])
     = BeautifulSoup
       [NavigableString '' '', Tag ''div'' None [(''href'', ''u'')] [NavigableString ''a'']]"
proof -
  let ?leaf = "Tag ''div'' None [(''href'', ''u'')] [NavigableString ''a'']"
  let ?ws = "NavigableString '' ''"
  let ?t0 = "[Tag ''div'' None [] [?ws, Tag ''div'' None [] [?leaf]]]"
  let ?outer = "[?ws, Tag ''div'' None [] [?leaf]]"
  let ?middle = "[Tag ''div'' None [] [?ws, ?leaf]]"
  let ?r = "[?ws, ?leaf]"
  have u1: "unwrappable True ''div'' [] [?ws, Tag ''div'' None [] [?leaf]]"
    by (simp add: unwrappable_def significant_children_def strip_empty_def isspace_def)
  have u2: "unwrappable True ''div'' [] [?leaf]"
    by (simp add: unwrappable_def significant_children_def)
  have u3: "unwrappable True ''div'' [] [?ws, ?leaf]"
    by (simp add: unwrappable_def significant_children_def strip_empty_def isspace_def)
  have a1: "unwrap_step True ?t0 ?outer"
    using unwrap_step.here [OF u1, of None "[]"] by simp
  have "unwrap_step True [Tag ''div'' None [] [?leaf]] [?leaf]"
    using unwrap_step.here [OF u2, of None "[]"] by simp
  then have a2: "unwrap_step True ?outer ?r"
    by (rule unwrap_step.later)
  have "unwrap_step True [Tag ''div'' None [] [?leaf]] [?leaf]"
    using unwrap_step.here [OF u2, of None "[]"] by simp
  then have "unwrap_step True [?ws, Tag ''div'' None [] [?leaf]] [?ws, ?leaf]"
    by (rule unwrap_step.later)
  then have b1: "unwrap_step True ?t0 ?middle"
    by (rule unwrap_step.inside)
  have b2: "unwrap_step True ?middle ?r"
    using unwrap_step.here [OF u3, of None "[]"] by simp
  have "unwrap_first True ?r = None"
    by (simp add: unwrappable_def significant_children_def)
  then have stable: "\<forall>u. \<not> unwrap_step True ?r u"
    using unwrap_step_first by blast
  from a1 a2 have ra: "rtranclp (unwrap_step True) ?t0 ?r" by simp
  from b1 b2 have rb: "rtranclp (unwrap_step True) ?t0 ?r" by simp
  from collapse_fixed_point_unique [OF ra stable rb stable] a1 a2 b1 b2 stable
  show ?thesis by simp
qed

section \<open>The two loops and the passes before them\<close>

lemma soup_contents: "BeautifulSoup (contents sp) = sp"
  by (cases sp) simp



lemma minimize_nesting_None:
  "unwrap_first sno cs = None \<Longrightarrow> minimize_nesting sno (BeautifulSoup cs) = BeautifulSoup cs"
  by (subst minimize_nesting.simps) simp

lemma minimize_nesting_Some:
  "unwrap_first sno cs = Some cs' \<Longrightarrow>
     minimize_nesting sno (BeautifulSoup cs) = minimize_nesting sno (BeautifulSoup cs')"
  by (subst minimize_nesting.simps) simp

lemma remove_empty_tags_None:
  "decompose_first cs = None \<Longrightarrow> remove_empty_tags (BeautifulSoup cs) = BeautifulSoup cs"
  by (subst remove_empty_tags.simps) simp

lemma remove_empty_tags_Some:
  "decompose_first cs = Some cs' \<Longrightarrow>
     remove_empty_tags (BeautifulSoup cs) = remove_empty_tags (BeautifulSoup cs')"
  by (subst remove_empty_tags.simps) simp

lemma unwrap_calls_None: "unwrap_first sno cs = None \<Longrightarrow> unwrap_calls sno (BeautifulSoup cs) = 0"
  by (subst unwrap_calls.simps) simp

lemma unwrap_calls_Some:
  "unwrap_first sno cs = Some cs' \<Longrightarrow>
     unwrap_calls sno (BeautifulSoup cs) = Suc (unwrap_calls sno (BeautifulSoup cs'))"
  by (subst unwrap_calls.simps) simp

lemma decompose_calls_None: "decompose_first cs = None \<Longrightarrow> decompose_calls (BeautifulSoup cs) = 0"
  by (subst decompose_calls.simps) simp

lemma decompose_calls_Some:
  "decompose_first cs = Some cs' \<Longrightarrow>
     decompose_calls (BeautifulSoup cs) = Suc (decompose_calls (BeautifulSoup cs'))"
  by (subst decompose_calls.simps) simp

text \<open>What holds of the tree before the loop and is kept by every mutation holds of the
  tree that the loop returns.\<close>

lemma minimize_nesting_invariant:
  assumes "P (contents sp)"
    and "\<And>s t t'. P t \<Longrightarrow> unwrap_first s t = Some t' \<Longrightarrow> P t'"
  shows "P (contents (minimize_nesting sno sp))"
  using assms(1)
proof (induction sno sp rule: minimize_nesting.induct)
  case (1 sno cs)
  show ?case
  proof (cases "unwrap_first sno cs")
    case None
    with 1 show ?thesis by (simp add: minimize_nesting_None)
  next
    case (Some cs')
    from "1.prems" have "P cs" by simp
    then have "P cs'" using Some by (rule assms(2))
    then have "P (contents (minimize_nesting sno (BeautifulSoup cs')))"
      using "1.IH" [OF Some] by simp
    with Some show ?thesis by (simp add: minimize_nesting_Some)
  qed
qed

lemma remove_empty_tags_invariant:
  assumes "P (contents sp)"
    and "\<And>t t'. P t \<Longrightarrow> decompose_first t = Some t' \<Longrightarrow> P t'"
  shows "P (contents (remove_empty_tags sp))"
  using assms(1)
proof (induction sp rule: remove_empty_tags.induct)
  case (1 cs)
  show ?case
  proof (cases "decompose_first cs")
    case None
    with 1 show ?thesis by (simp add: remove_empty_tags_None)
  next
    case (Some cs')
    from "1.prems" have "P cs" by simp
    then have "P cs'" using Some by (rule assms(2))
    then have "P (contents (remove_empty_tags (BeautifulSoup cs')))"
      using "1.IH" [OF Some] by simp
    with Some show ?thesis by (simp add: remove_empty_tags_Some)
  qed
qed

lemma minimize_nesting_stable: "unwrap_first sno (contents (minimize_nesting sno sp)) = None"
proof (induction sno sp rule: minimize_nesting.induct)
  case (1 sno cs)
  show ?case
  proof (cases "unwrap_first sno cs")
    case None
    then show ?thesis by (simp add: minimize_nesting_None)
  next
    case (Some cs')
    with "1.IH" [OF Some] show ?thesis by (simp add: minimize_nesting_Some)
  qed
qed

lemma remove_empty_tags_stable: "decompose_first (contents (remove_empty_tags sp)) = None"
proof (induction sp rule: remove_empty_tags.induct)
  case (1 cs)
  show ?case
  proof (cases "decompose_first cs")
    case None
    then show ?thesis by (simp add: remove_empty_tags_None)
  next
    case (Some cs')
    with "1.IH" [OF Some] show ?thesis by (simp add: remove_empty_tags_Some)
  qed
qed

lemma minimize_nesting_id:
  "unwrap_first sno (contents sp) = None \<Longrightarrow> minimize_nesting sno sp = sp"
  by (cases sp) (simp add: minimize_nesting_None)

lemma remove_empty_tags_id:
  "decompose_first (contents sp) = None \<Longrightarrow> remove_empty_tags sp = sp"
  by (cases sp) (simp add: remove_empty_tags_None)

lemma minimize_nesting_count:
  "count_nodes (contents (minimize_nesting sno sp)) + unwrap_calls sno sp
     = count_nodes (contents sp)"
proof (induction sno sp rule: minimize_nesting.induct)
  case (1 sno cs)
  show ?case
  proof (cases "unwrap_first sno cs")
    case None
    then show ?thesis by (simp add: minimize_nesting_None unwrap_calls_None)
  next
    case (Some cs')
    with "1.IH" [OF Some] unwrap_first_count [OF Some] show ?thesis
      by (simp add: minimize_nesting_Some unwrap_calls_Some)
  qed
qed

lemma remove_empty_tags_count:
  "count_nodes (contents (remove_empty_tags sp)) + decompose_calls sp
     \<le> count_nodes (contents sp)"
proof (induction sp rule: remove_empty_tags.induct)
  case (1 cs)
  show ?case
  proof (cases "decompose_first cs")
    case None
    then show ?thesis by (simp add: remove_empty_tags_None decompose_calls_None)
  next
    case (Some cs')
    with "1.IH" [OF Some] decompose_first_count [OF Some] show ?thesis
      by (simp add: remove_empty_tags_Some decompose_calls_Some)
  qed
qed

text \<open>Every mutation of the two loops, and every earlier pass, keeps what holds of all
  tags of the tree.\<close>

lemma every_tag_append: "every_tag P (xs @ ys) = (every_tag P xs \<and> every_tag P ys)"
  by (induction P xs rule: every_tag.induct) simp_all

lemma every_tag_unwrap_first:
  "unwrap_first sno t = Some t' \<Longrightarrow> every_tag P t \<Longrightarrow> every_tag P t'"
  by (induction sno t arbitrary: t' rule: unwrap_first.induct)
     (auto simp: every_tag_append split: if_splits option.splits)

lemma every_tag_decompose_first:
  "decompose_first t = Some t' \<Longrightarrow> every_tag P t \<Longrightarrow> every_tag P t'"
  by (induction t arbitrary: t' rule: decompose_first.induct)
     (auto split: if_splits option.splits)

lemma every_tag_minimize_nesting:
  "every_tag P (contents sp) \<Longrightarrow> every_tag P (contents (minimize_nesting sno sp))"
  by (rule minimize_nesting_invariant) (simp_all add: every_tag_unwrap_first)

lemma every_tag_remove_empty_tags:
  "every_tag P (contents sp) \<Longrightarrow> every_tag P (contents (remove_empty_tags sp))"
  by (rule remove_empty_tags_invariant) (simp_all add: every_tag_decompose_first)

lemma every_tag_extract_comments: "every_tag P t \<Longrightarrow> every_tag P (extract_comments t)"
  by (induction t rule: extract_comments.induct) simp_all

lemma every_tag_strip_attrs_name:
  "every_tag (\<lambda>n p a. Q n p) t \<Longrightarrow> every_tag (\<lambda>n p a. Q n p) (strip_attrs keep t)"
  by (induction keep t rule: strip_attrs.induct) simp_all

lemma every_tag_strip_attrs:
  "every_tag (\<lambda>n p a. fst ` set a \<subseteq> set keep) (strip_attrs keep t)"
  by (induction keep t rule: strip_attrs.induct) auto

lemma strip_attrs_id:
  "every_tag (\<lambda>n p a. fst ` set a \<subseteq> set keep) t \<Longrightarrow> strip_attrs keep t = t"
  by (induction keep t rule: strip_attrs.induct) (auto simp: filter_id_conv)

text \<open>The removal loop, one name after the other, as a single traversal.\<close>

lemma fold_decompose_all_Nil: "fold decompose_all rs [] = []"
  by (induction rs) simp_all

lemma fold_decompose_all_Tag:
  "fold decompose_all rs (Tag n p a ks # rest) =
     (if list_ex (\<lambda>nm. find_all_match nm n p) rs then fold decompose_all rs rest
      else Tag n p a (fold decompose_all rs ks) # fold decompose_all rs rest)"
  by (induction rs arbitrary: ks rest) auto

lemma fold_decompose_all_String:
  "fold decompose_all rs (NavigableString s # rest) = NavigableString s # fold decompose_all rs rest"
  by (induction rs arbitrary: rest) simp_all

lemma fold_decompose_all_Comment:
  "fold decompose_all rs (Comment s # rest) = Comment s # fold decompose_all rs rest"
  by (induction rs arbitrary: rest) simp_all

lemma every_tag_fold_decompose_all:
  "every_tag (\<lambda>n p a. \<not> list_ex (\<lambda>nm. find_all_match nm n p) rs) (fold decompose_all rs t)"
  by (induction t rule: extract_comments.induct)
     (simp_all add: fold_decompose_all_Nil fold_decompose_all_Tag fold_decompose_all_String
        fold_decompose_all_Comment)

lemma fold_decompose_all_id:
  "every_tag (\<lambda>n p a. \<not> list_ex (\<lambda>nm. find_all_match nm n p) rs) t \<Longrightarrow>
     fold decompose_all rs t = t"
  by (induction t rule: extract_comments.induct)
     (simp_all add: fold_decompose_all_Nil fold_decompose_all_Tag fold_decompose_all_String
        fold_decompose_all_Comment)

lemma every_tag_mono:
  "every_tag P t \<Longrightarrow> (\<And>n p a. P n p a \<Longrightarrow> Q n p a) \<Longrightarrow> every_tag Q t"
  by (induction P t rule: every_tag.induct) simp_all

lemma find_all_match_name: "find_all_match nm nm p"
  by (simp add: find_all_match_def)

lemma not_found_not_listed:
  "\<not> list_ex (\<lambda>nm. find_all_match nm n p) rs \<Longrightarrow> n \<notin> set rs"
  by (auto simp: list_ex_iff find_all_match_name)

text \<open>No pass after the comment removal brings a comment back.\<close>

lemma comment_free_append: "comment_free (xs @ ys) = (comment_free xs \<and> comment_free ys)"
  by (induction xs rule: comment_free.induct) simp_all

lemma comment_free_extract_comments: "comment_free (extract_comments t)"
  by (induction t rule: extract_comments.induct) simp_all

lemma extract_comments_id: "comment_free t \<Longrightarrow> extract_comments t = t"
  by (induction t rule: extract_comments.induct) simp_all

lemma comment_free_strip_attrs: "comment_free (strip_attrs keep t) = comment_free t"
  by (induction keep t rule: strip_attrs.induct) simp_all

lemma comment_free_unwrap_first:
  "unwrap_first sno t = Some t' \<Longrightarrow> comment_free t \<Longrightarrow> comment_free t'"
  by (induction sno t arbitrary: t' rule: unwrap_first.induct)
     (auto simp: comment_free_append split: if_splits option.splits)

lemma comment_free_decompose_first:
  "decompose_first t = Some t' \<Longrightarrow> comment_free t \<Longrightarrow> comment_free t'"
  by (induction t arbitrary: t' rule: decompose_first.induct)
     (auto split: if_splits option.splits)

lemma comment_free_minimize_nesting:
  "comment_free (contents sp) \<Longrightarrow> comment_free (contents (minimize_nesting sno sp))"
  by (rule minimize_nesting_invariant) (simp_all add: comment_free_unwrap_first)

lemma comment_free_remove_empty_tags:
  "comment_free (contents sp) \<Longrightarrow> comment_free (contents (remove_empty_tags sp))"
  by (rule remove_empty_tags_invariant) (simp_all add: comment_free_decompose_first)

text \<open>The scan of \<^verbatim>\<open>remove_empty_tags\<close> finds nothing exactly when no tag is empty.\<close>

lemma decompose_first_None_iff: "decompose_first t = None \<longleftrightarrow> no_empty_tag t"
  by (induction t rule: decompose_first.induct) (auto split: option.splits)

section \<open>The pipeline as a whole\<close>

lemma clean_html_names:
  "every_tag (\<lambda>n p a. \<not> list_ex (\<lambda>nm. find_all_match nm n p) (remove_tag ar))
     (contents (clean_html ar sp))"
  by (simp add: clean_html_def Let_def every_tag_remove_empty_tags every_tag_minimize_nesting
        every_tag_strip_attrs_name every_tag_extract_comments every_tag_fold_decompose_all)

lemma clean_html_attrs:
  "every_tag (\<lambda>n p a. fst ` set a \<subseteq> set (keep_attr ar)) (contents (clean_html ar sp))"
  by (simp add: clean_html_def Let_def every_tag_remove_empty_tags every_tag_minimize_nesting
        every_tag_strip_attrs)

lemma clean_html_comment_free:
  "remove_comments ar \<Longrightarrow> comment_free (contents (clean_html ar sp))"
  by (simp add: clean_html_def Let_def comment_free_remove_empty_tags
        comment_free_minimize_nesting comment_free_strip_attrs comment_free_extract_comments)

lemma clean_html_no_empty:
  "remove_empty ar \<Longrightarrow> decompose_first (contents (clean_html ar sp)) = None"
  by (simp add: clean_html_def Let_def remove_empty_tags_stable)

lemma clean_html_collapsed:
  "minimize_nesting_opt ar \<Longrightarrow> \<not> remove_empty ar \<Longrightarrow>
     unwrap_first (same_name_only ar) (contents (clean_html ar sp)) = None"
  by (simp add: clean_html_def Let_def minimize_nesting_stable)

lemma clean_html_id:
  assumes "every_tag (\<lambda>n p a. \<not> list_ex (\<lambda>nm. find_all_match nm n p) (remove_tag ar))
             (contents sp)"
    and "remove_comments ar \<Longrightarrow> comment_free (contents sp)"
    and "every_tag (\<lambda>n p a. fst ` set a \<subseteq> set (keep_attr ar)) (contents sp)"
    and "minimize_nesting_opt ar \<Longrightarrow> unwrap_first (same_name_only ar) (contents sp) = None"
    and "remove_empty ar \<Longrightarrow> decompose_first (contents sp) = None"
  shows "clean_html ar sp = sp"
  using assms
  by (simp add: clean_html_def Let_def fold_decompose_all_id extract_comments_id strip_attrs_id
        soup_contents minimize_nesting_id remove_empty_tags_id)

lemma no_tags_decompose_first: "significant_children cs = [] \<Longrightarrow> decompose_first cs = None"
  by (induction cs rule: decompose_first.induct)
     (auto simp: significant_children_def split: if_splits)

lemma clean_html_empty: "clean_html ar (BeautifulSoup []) = BeautifulSoup []"
  by (simp add: clean_html_def Let_def fold_decompose_all_Nil minimize_nesting_None
        remove_empty_tags_None)

text \<open>Claim C4 as stated fails. On \<^verbatim>\<open><div><div>a</div><p></p></div>\<close> the first run keeps
  the outer \<^verbatim>\<open>div\<close> (it has two significant children when the wrappers are collapsed)
  and then prunes the empty \<^verbatim>\<open>p\<close>; the second run finds the outer \<^verbatim>\<open>div\<close> with one
  child of its own name and unwraps it.\<close>

theorem pipeline_not_idempotent_counterexample:
  "clean_html default_args (clean_html default_args
      (BeautifulSoup [Tag ''div'' None [] [Tag ''div'' None [] [NavigableString ''a''], Tag ''p'' None [] []]]))
   \<noteq> clean_html default_args
      (BeautifulSoup [Tag ''div'' None [] [Tag ''div'' None [] [NavigableString ''a''], Tag ''p'' None [] []]])"
  by (simp add: clean_html_def default_args_def find_all_match_def split_name_def minimize_nesting.simps
        remove_empty_tags.simps unwrappable_def significant_children_def strip_empty_def
        isspace_def Let_def)

text \<open>
  Claim C4, as the code has it. The wrappers are collapsed before the empty tags are
  pruned, so pruning can leave a wrapper that a second run unwraps. A second run of the
  whole pipeline returns the first result unchanged (structure, attributes and text)
  whenever no tag of the first result passes the unwrap tests of \<^verbatim>\<open>minimize_nesting\<close>;
  that is always so when \<^verbatim>\<open>minimize_nesting\<close> or \<^verbatim>\<open>remove_empty\<close> is disabled.
\<close>

theorem pipeline_idempotent_on_collapsed_result:
  assumes "minimize_nesting_opt ar \<and> remove_empty ar \<longrightarrow>
             unwrap_first (same_name_only ar) (contents (clean_html ar sp)) = None"
  shows "clean_html ar (clean_html ar sp) = clean_html ar sp"
proof (rule clean_html_id)
  show "every_tag (\<lambda>n p a. \<not> list_ex (\<lambda>nm. find_all_match nm n p) (remove_tag ar))
          (contents (clean_html ar sp))"
    by (rule clean_html_names)
  show "comment_free (contents (clean_html ar sp))" if "remove_comments ar"
    using that by (rule clean_html_comment_free)
  show "every_tag (\<lambda>n p a. fst ` set a \<subseteq> set (keep_attr ar)) (contents (clean_html ar sp))"
    by (rule clean_html_attrs)
  show "unwrap_first (same_name_only ar) (contents (clean_html ar sp)) = None"
    if "minimize_nesting_opt ar"
    using that assms clean_html_collapsed [of ar sp] by (cases "remove_empty ar") simp_all
  show "decompose_first (contents (clean_html ar sp)) = None" if "remove_empty ar"
    using that by (rule clean_html_no_empty)
qed

text \<open>The theorem at \<^verbatim>\<open><div><div>Hello</div></div>\<close> under the default
  configuration.\<close>

theorem pipeline_idempotent_on_collapsed_result_witness:
  "unwrap_first (same_name_only default_args) (contents (clean_html default_args
      (BeautifulSoup [Tag ''div'' None [] [Tag ''div'' None [] [NavigableString ''Hello'']]]))) = None
   \<and> clean_html default_args (clean_html default_args
      (BeautifulSoup [Tag ''div'' None [] [Tag ''div'' None [] [NavigableString ''Hello'']]]))
     = clean_html default_args
      (BeautifulSoup [Tag ''div'' None [] [Tag ''div'' None [] [NavigableString ''Hello'']]])"
proof -
  let ?sp = "BeautifulSoup [Tag ''div'' None [] [Tag ''div'' None [] [NavigableString ''Hello'']]]"
  have h: "unwrap_first (same_name_only default_args) (contents (clean_html default_args ?sp))
             = None"
    by (simp add: clean_html_def default_args_def find_all_match_def split_name_def minimize_nesting.simps
          remove_empty_tags.simps unwrappable_def significant_children_def strip_empty_def
          isspace_def Let_def)
  then have "minimize_nesting_opt default_args \<and> remove_empty default_args \<longrightarrow>
      unwrap_first (same_name_only default_args) (contents (clean_html default_args ?sp)) = None"
    by simp
  from pipeline_idempotent_on_collapsed_result [OF this] h show ?thesis by simp
qed

text \<open>
  Claim C5. After the pipeline, every tag of the output tree has all its attribute names
  in \<^verbatim>\<open>keep_attr\<close>; with an empty \<^verbatim>\<open>keep_attr\<close> every tag has no attribute.
\<close>

theorem attribute_allow_list_closure:
  "every_tag (\<lambda>n p a. fst ` set a \<subseteq> set (keep_attr ar)) (contents (clean_html ar sp))
   \<and> every_tag (\<lambda>n p a. a = []) (contents (clean_html (ar \<lparr> keep_attr := [] \<rparr>) sp))"
  using clean_html_attrs [of ar sp] clean_html_attrs [of "ar \<lparr> keep_attr := [] \<rparr>" sp]
  by simp

text \<open>
  Claim C6. After the pipeline, no tag of the output tree has a name in \<^verbatim>\<open>remove_tag\<close>,
  and no tag of the output tree is one that \<^verbatim>\<open>soup.find_all(name)\<close> finds for a
  \<open>name\<close> in \<^verbatim>\<open>remove_tag\<close> (a listed \<^verbatim>\<open>a:b\<close> also stands for the tags \<^verbatim>\<open>b\<close> of
  prefix \<^verbatim>\<open>a\<close>). The removal loop deletes each tag that is found with its whole
  subtree: nothing of its children stays in the parent's child list, while every other
  node is kept in place with its own children filtered in the same way.
\<close>

theorem no_residual_removed_tags:
  "every_tag (\<lambda>n p a. n \<notin> set (remove_tag ar)) (contents (clean_html ar sp))
   \<and> every_tag (\<lambda>n p a. \<not> list_ex (\<lambda>nm. find_all_match nm n p) (remove_tag ar))
        (contents (clean_html ar sp))
   \<and> fold decompose_all rs (Tag n p a ks # rest) =
       (if list_ex (\<lambda>nm. find_all_match nm n p) rs then fold decompose_all rs rest
        else Tag n p a (fold decompose_all rs ks) # fold decompose_all rs rest)
   \<and> fold decompose_all rs (NavigableString s # rest) = NavigableString s # fold decompose_all rs rest
   \<and> fold decompose_all rs (Comment s # rest) = Comment s # fold decompose_all rs rest
   \<and> fold decompose_all rs [] = []
   \<and> find_all_match n n p"
proof -
  have "every_tag (\<lambda>n p a. n \<notin> set (remove_tag ar)) (contents (clean_html ar sp))"
    using clean_html_names [of ar sp] by (rule every_tag_mono) (rule not_found_not_listed)
  with clean_html_names [of ar sp] fold_decompose_all_Tag [of rs n p a ks rest]
  show ?thesis
    by (simp add: fold_decompose_all_String fold_decompose_all_Comment fold_decompose_all_Nil
          find_all_match_name)
qed

text \<open>The theorem at the tree of \<^verbatim>\<open><r xmlns:a="u"><a:b>x</a:b><b>y</b><c/></r>\<close> from an
  XML parser: \<^verbatim>\<open>a:b\<close> finds the prefixed tag only, \<^verbatim>\<open>b\<close> finds both.\<close>

theorem no_residual_removed_tags_witness:
  "fold decompose_all [''a:b'']
     [Tag ''b'' (Some ''a'') [] [NavigableString ''x''], Tag ''b'' None [] [NavigableString ''y'']]
     = [Tag ''b'' None [] [NavigableString ''y'']]
   \<and> contents (clean_html (default_args \<lparr> remove_tag := [''a:b''] \<rparr>)
       (BeautifulSoup [Tag ''r'' None []
          [Tag ''b'' (Some ''a'') [] [NavigableString ''x''],
           Tag ''b'' None [] [NavigableString ''y''], Tag ''c'' None [] []]]))
     = [Tag ''r'' None [] [Tag ''b'' None [] [NavigableString ''y'']]]
   \<and> contents (clean_html (default_args \<lparr> remove_tag := [''b''] \<rparr>)
       (BeautifulSoup [Tag ''r'' None []
          [Tag ''b'' (Some ''a'') [] [NavigableString ''x''],
           Tag ''b'' None [] [NavigableString ''y''], Tag ''c'' None [] [NavigableString ''z'']]]))
     = [Tag ''r'' None [] [Tag ''c'' None [] [NavigableString ''z'']]]"
proof -
  have m: "list_ex (\<lambda>nm. find_all_match nm ''b'' (Some ''a'')) [''a:b'']"
    by (simp add: find_all_match_def split_name_def)
  have k: "\<not> list_ex (\<lambda>nm. find_all_match nm ''b'' None) [''a:b'']"
    by (simp add: find_all_match_def split_name_def)
  from no_residual_removed_tags
    [of default_args "BeautifulSoup []" "[''a:b'']" "''b''" "Some ''a''" "[]"
        "[NavigableString ''x'']" "[Tag ''b'' None [] [NavigableString ''y'']]" "''x''"]
    m
  have 1: "fold decompose_all [''a:b'']
     [Tag ''b'' (Some ''a'') [] [NavigableString ''x''], Tag ''b'' None [] [NavigableString ''y'']]
     = fold decompose_all [''a:b''] [Tag ''b'' None [] [NavigableString ''y'']]"
    by simp
  have 2: "fold decompose_all [''a:b''] [Tag ''b'' None [] [NavigableString ''y'']]
     = [Tag ''b'' None [] [NavigableString ''y'']]"
    using k by (simp add: find_all_match_def split_name_def)
  have 3: "contents (clean_html (default_args \<lparr> remove_tag := [''a:b''] \<rparr>)
       (BeautifulSoup [Tag ''r'' None []
          [Tag ''b'' (Some ''a'') [] [NavigableString ''x''],
           Tag ''b'' None [] [NavigableString ''y''], Tag ''c'' None [] []]]))
     = [Tag ''r'' None [] [Tag ''b'' None [] [NavigableString ''y'']]]"
    by (simp add: clean_html_def default_args_def find_all_match_def split_name_def
          minimize_nesting.simps remove_empty_tags.simps unwrappable_def
          significant_children_def strip_empty_def isspace_def Let_def)
  have 4: "contents (clean_html (default_args \<lparr> remove_tag := [''b''] \<rparr>)
       (BeautifulSoup [Tag ''r'' None []
          [Tag ''b'' (Some ''a'') [] [NavigableString ''x''],
           Tag ''b'' None [] [NavigableString ''y''], Tag ''c'' None [] [NavigableString ''z'']]]))
     = [Tag ''r'' None [] [Tag ''c'' None [] [NavigableString ''z'']]]"
    by (simp add: clean_html_def default_args_def find_all_match_def split_name_def
          minimize_nesting.simps remove_empty_tags.simps unwrappable_def
          significant_children_def strip_empty_def isspace_def Let_def)
  from 1 2 3 4 show ?thesis by simp
qed

text \<open>
  Claim C7. In the tree that \<^verbatim>\<open>remove_empty_tags\<close> returns, and so in the output of
  the pipeline when \<^verbatim>\<open>remove_empty\<close> is enabled, no tag is without significant
  children. The root is never deleted: a root without significant children is returned
  as it is, and on the empty document the whole pipeline returns the empty document.
\<close>

theorem pruner_fixed_point:
  "no_empty_tag (contents (remove_empty_tags sp))
   \<and> no_empty_tag (contents (clean_html (ar \<lparr> remove_empty := True \<rparr>) sp))
   \<and> (significant_children cs = [] \<longrightarrow> remove_empty_tags (BeautifulSoup cs) = BeautifulSoup cs)
   \<and> clean_html ar (BeautifulSoup []) = BeautifulSoup []"
proof -
  have 1: "no_empty_tag (contents (remove_empty_tags sp))"
    using remove_empty_tags_stable [of sp] by (simp add: decompose_first_None_iff)
  have 2: "no_empty_tag (contents (clean_html (ar \<lparr> remove_empty := True \<rparr>) sp))"
    using clean_html_no_empty [of "ar \<lparr> remove_empty := True \<rparr>" sp]
    by (simp add: decompose_first_None_iff)
  have 3: "remove_empty_tags (BeautifulSoup cs) = BeautifulSoup cs"
    if "significant_children cs = []"
    using that by (simp add: no_tags_decompose_first remove_empty_tags_None)
  from 1 2 3 clean_html_empty show ?thesis by blast
qed

text \<open>The theorem at a root with one blank string, and at \<^verbatim>\<open><p><b></b></p>\<close> where
  deleting \<^verbatim>\<open>b\<close> empties \<^verbatim>\<open>p\<close>.\<close>

theorem pruner_fixed_point_witness:
  "significant_children [NavigableString '' ''] = []
   \<and> remove_empty_tags (BeautifulSoup [NavigableString '' ''])
        = BeautifulSoup [NavigableString '' '']
   \<and> no_empty_tag (contents (remove_empty_tags (BeautifulSoup [Tag ''p'' None [] [Tag ''b'' None [] []]])))
   \<and> remove_empty_tags (BeautifulSoup [Tag ''p'' None [] [Tag ''b'' None [] []]]) = BeautifulSoup []"
proof -
  have h: "significant_children [NavigableString '' ''] = []"
    by (simp add: significant_children_def strip_empty_def isspace_def)
  have e: "remove_empty_tags (BeautifulSoup [Tag ''p'' None [] [Tag ''b'' None [] []]]) = BeautifulSoup []"
    by (simp add: remove_empty_tags.simps significant_children_def)
  from pruner_fixed_point
    [of "BeautifulSoup [Tag ''p'' None [] [Tag ''b'' None [] []]]" default_args "[NavigableString '' '']"]
    h e
  show ?thesis by simp
qed

text \<open>
  Claim C8. Both loops are total functions (their termination is proved where they are
  defined) and end in a tree where their scan finds nothing. Each unwrap takes exactly
  one node from the tree and each deletion at least one, so the node count after each
  loop is at most the node count before, and the number of mutations of each loop is at
  most the number of nodes of the tree it starts from.
\<close>

theorem loops_shrink_the_tree:
  "(unwrap_first sno cs = Some cs' \<longrightarrow> Suc (count_nodes cs') = count_nodes cs)
   \<and> (decompose_first cs = Some cs'' \<longrightarrow> count_nodes cs'' < count_nodes cs)
   \<and> count_nodes (contents (minimize_nesting sno sp)) + unwrap_calls sno sp
        = count_nodes (contents sp)
   \<and> count_nodes (contents (remove_empty_tags sp)) + decompose_calls sp
        \<le> count_nodes (contents sp)
   \<and> count_nodes (contents (minimize_nesting sno sp)) \<le> count_nodes (contents sp)
   \<and> count_nodes (contents (remove_empty_tags sp)) \<le> count_nodes (contents sp)
   \<and> unwrap_calls sno sp \<le> count_nodes (contents sp)
   \<and> decompose_calls sp \<le> count_nodes (contents sp)
   \<and> unwrap_first sno (contents (minimize_nesting sno sp)) = None
   \<and> decompose_first (contents (remove_empty_tags sp)) = None"
proof -
  have a: "unwrap_first sno cs = Some cs' \<longrightarrow> Suc (count_nodes cs') = count_nodes cs"
    by (simp add: unwrap_first_count)
  have b: "decompose_first cs = Some cs'' \<longrightarrow> count_nodes cs'' < count_nodes cs"
    by (simp add: decompose_first_count)
  note c = minimize_nesting_count [of sno sp]
  note d = remove_empty_tags_count [of sp]
  from c have e: "count_nodes (contents (minimize_nesting sno sp)) \<le> count_nodes (contents sp)"
    and g: "unwrap_calls sno sp \<le> count_nodes (contents sp)" by arith+
  from d have f: "count_nodes (contents (remove_empty_tags sp)) \<le> count_nodes (contents sp)"
    and h: "decompose_calls sp \<le> count_nodes (contents sp)" by arith+
  from a b c d e f g h minimize_nesting_stable [of sno sp] remove_empty_tags_stable [of sp]
  show ?thesis by blast
qed

text \<open>The theorem at \<^verbatim>\<open><div><div></div></div>\<close>.\<close>

theorem loops_shrink_the_tree_witness:
  "unwrap_first True [Tag ''div'' None [] [Tag ''div'' None [] []]] = Some [Tag ''div'' None [] []]
   \<and> Suc (count_nodes [Tag ''div'' None [] []]) = count_nodes [Tag ''div'' None [] [Tag ''div'' None [] []]]
   \<and> decompose_first [Tag ''div'' None [] [Tag ''div'' None [] []]] = Some [Tag ''div'' None [] []]
   \<and> count_nodes [Tag ''div'' None [] []] < count_nodes [Tag ''div'' None [] [Tag ''div'' None [] []]]
   \<and> unwrap_calls True (BeautifulSoup [Tag ''div'' None [] [Tag ''div'' None [] []]]) \<le> 2
   \<and> decompose_calls (BeautifulSoup [Tag ''div'' None [] [Tag ''div'' None [] []]]) \<le> 2"
proof -
  have u: "unwrap_first True [Tag ''div'' None [] [Tag ''div'' None [] []]] = Some [Tag ''div'' None [] []]"
    by (simp add: unwrappable_def significant_children_def)
  have d: "decompose_first [Tag ''div'' None [] [Tag ''div'' None [] []]] = Some [Tag ''div'' None [] []]"
    by (simp add: significant_children_def)
  from loops_shrink_the_tree
    [of True "[Tag ''div'' None [] [Tag ''div'' None [] []]]" "[Tag ''div'' None [] []]" "[Tag ''div'' None [] []]"
        "BeautifulSoup [Tag ''div'' None [] [Tag ''div'' None [] []]]"]
    u d
  show ?thesis by simp
qed

end
